theory Spec2Isabelle
  imports Complex_Main "HOL-Library.Sublist" "HOL-Library.Word"
begin

section \<open>Python values used by \<open>main.py\<close>\<close>

text \<open>
  An exception is represented by its textual message, which is all the handlers ever
  read from it (\<open>str(e)\<close>). A computation that may raise returns \<open>exn + 'a\<close>,
  with \<open>Inl\<close> for the exception.
\<close>

datatype exn = Exn (message: string)

type_synonym bytes = "8 word list"

definition and_then :: "exn + 'a \<Rightarrow> ('a \<Rightarrow> exn + 'b) \<Rightarrow> exn + 'b" where
  "and_then r f = (case r of Inl e \<Rightarrow> Inl e | Inr x \<Rightarrow> f x)"

subsection \<open>Double-precision arithmetic\<close>

text \<open>
  Lines 39 and 41 of \<open>main.py\<close> compute in Python floats, which are IEEE 754 binary64
  numbers. A finite double is a rational number \<open>m * 2 ^ e\<close> with \<open>\<bar>m\<bar> < 2 ^ 53\<close> and
  \<open>- 1074 \<le> e\<close>; every operation returns the representable number nearest to the exact
  result, a tie going to the even significand. \<open>rnd\<close> is that rounding, with the
  exponent unbounded above; \<open>to_float\<close> adds the overflow to infinity.
\<close>

fun bit_length :: "nat \<Rightarrow> nat" where
  "bit_length n = (if n = 0 then 0 else Suc (bit_length (n div 2)))"

declare bit_length.simps [simp del]

definition ilog2 :: "rat \<Rightarrow> int" where
  \<comment> \<open>\<open>\<lfloor>log\<^sub>2 x\<rfloor>\<close> for \<open>0 < x\<close>\<close>
  "ilog2 x = (if 1 \<le> x then int (bit_length (nat \<lfloor>x\<rfloor>)) - 1
              else - int (bit_length (nat \<lceil>1 / x\<rceil> - 1)))"

definition round_half_even :: "rat \<Rightarrow> int" where
  "round_half_even y =
     (let f = \<lfloor>y\<rfloor>; d = y - of_int f
      in if d < 1 / 2 then f else if 1 / 2 < d then f + 1 else if even f then f else f + 1)"

definition rnd :: "rat \<Rightarrow> rat" where
  "rnd x = (if x = 0 then 0
            else let e = max (ilog2 \<bar>x\<bar> - 52) (- 1074)
                 in of_int (round_half_even (x / 2 powi e)) * 2 powi e)"

definition dbl_max :: rat where
  "dbl_max = of_int ((2 ^ 53 - 1) * 2 ^ 971)"

datatype pyfloat = Finite rat | Infinity

definition to_float :: "rat \<Rightarrow> pyfloat" where
  "to_float x = (if dbl_max < \<bar>rnd x\<bar> then Infinity else Finite (rnd x))"

definition int_truediv :: "int \<Rightarrow> int \<Rightarrow> exn + rat" where
  \<comment> \<open>\<open>a / b\<close> on two Python ints: the correctly rounded quotient\<close>
  "int_truediv a b =
     (if b = 0 then Inl (Exn ''division by zero'')
      else case to_float (of_int a / of_int b) of
             Infinity \<Rightarrow> Inl (Exn ''integer division result too large for a float'')
           | Finite q \<Rightarrow> Inr q)"

definition int_times_float :: "int \<Rightarrow> rat \<Rightarrow> exn + pyfloat" where
  \<comment> \<open>\<open>n * x\<close> with \<open>n\<close> an int and \<open>x\<close> a finite float: \<open>n\<close> is converted first\<close>
  "int_times_float n x =
     (case to_float (of_int n) of
        Infinity \<Rightarrow> Inl (Exn ''int too large to convert to float'')
      | Finite f \<Rightarrow> Inr (to_float (f * x)))"

definition int_of_float :: "pyfloat \<Rightarrow> exn + int" where
  \<comment> \<open>\<open>int(x)\<close>: truncation toward zero\<close>
  "int_of_float x =
     (case x of
        Infinity \<Rightarrow> Inl (Exn ''cannot convert float infinity to integer'')
      | Finite f \<Rightarrow> Inr (if 0 \<le> f then \<lfloor>f\<rfloor> else \<lceil>f\<rceil>))"

section \<open>The image library\<close>

text \<open>
  The handlers call Pillow for everything that touches pixels. An image is modelled by its
  mode, its size \<open>(width, height)\<close> and its pixel data, whose type \<open>'p\<close> is left open.
  What the library computes on pixel data and on encoded bytes is a parameter of the model
  (the record \<open>pillow\<close>); what it does with modes and sizes is written out below, as
  Pillow does it: \<open>Image.new\<close> creates an image of the given mode and size,
  \<open>paste\<close> changes pixels only, \<open>resize\<close> returns a copy for an unchanged size,
  raises \<open>ValueError\<close> when the target width or height is below one and otherwise
  returns an image of the target size, and \<open>crop\<close>, unless it refuses the box, rounds
  it to integers and returns an image of the size of the rounded box.
  Decoding is taken to happen at \<open>Image.open\<close>: Pillow defers it to the first pixel
  access, which in all three handlers lies in the same \<open>try\<close> block.
\<close>

record 'p image =
  mode :: string
  im_size :: "nat \<times> nat"
  pixels :: 'p

record 'p pillow =
  decode :: "bytes \<Rightarrow> exn + 'p image"
  solid :: "string \<Rightarrow> nat \<times> nat \<Rightarrow> nat \<times> nat \<times> nat \<Rightarrow> 'p"
  band :: "'p image \<Rightarrow> string \<Rightarrow> 'p"
  composite :: "'p \<Rightarrow> 'p image \<Rightarrow> 'p image \<Rightarrow> 'p"
  resample :: "'p image \<Rightarrow> nat \<times> nat \<Rightarrow> 'p"
  crop_region :: "'p image \<Rightarrow> rat \<times> rat \<times> rat \<times> rat \<Rightarrow> exn + 'p"
  encode :: "'p image \<Rightarrow> string \<Rightarrow> int \<Rightarrow> exn + bytes"

definition Image_open :: "'p pillow \<Rightarrow> bytes \<Rightarrow> exn + 'p image" where
  "Image_open P image_data = decode P image_data"

definition Image_new :: "'p pillow \<Rightarrow> string \<Rightarrow> nat \<times> nat \<Rightarrow> nat \<times> nat \<times> nat \<Rightarrow> 'p image" where
  "Image_new P m sz color = \<lparr>mode = m, im_size = sz, pixels = solid P m sz color\<rparr>"

definition getchannel :: "'p pillow \<Rightarrow> 'p image \<Rightarrow> string \<Rightarrow> 'p image" where
  "getchannel P img channel = \<lparr>mode = ''L'', im_size = im_size img, pixels = band P img channel\<rparr>"

definition paste :: "'p pillow \<Rightarrow> 'p image \<Rightarrow> 'p image \<Rightarrow> 'p image \<Rightarrow> 'p image" where
  \<comment> \<open>\<open>background.paste(im, mask=mask_img)\<close> changes the pixels of \<open>background\<close> in place\<close>
  "paste P background im mask_img =
     background\<lparr>pixels := composite P (pixels background) im mask_img\<rparr>"

definition Image_resize :: "'p pillow \<Rightarrow> 'p image \<Rightarrow> int \<times> int \<Rightarrow> exn + 'p image" where
  \<comment> \<open>\<open>img.resize(size, LANCZOS)\<close>: a copy when the size is unchanged, \<open>ValueError\<close> for
      an empty target, an image of the requested size otherwise\<close>
  "Image_resize P img sz =
     (if sz = (int (fst (im_size img)), int (snd (im_size img))) then Inr img
      else if fst sz < 1 \<or> snd sz < 1 then Inl (Exn ''height and width must be > 0'')
      else Inr \<lparr>mode = mode img, im_size = (nat (fst sz), nat (snd sz)),
                pixels = resample P img (nat (fst sz), nat (snd sz))\<rparr>)"

definition Image_crop :: "'p pillow \<Rightarrow> 'p image \<Rightarrow> rat \<times> rat \<times> rat \<times> rat \<Rightarrow> exn + 'p image" where
  \<comment> \<open>\<open>img.crop(box)\<close>: the library sees the box as it is given, so that it can refuse it
      on the unrounded coordinates (\<open>right < left\<close>, \<open>lower < upper\<close>); when it accepts
      the box, the coordinates are rounded to integers and the result has their width
      and height\<close>
  "Image_crop P img box =
     (case box of (left, upper, right, lower) \<Rightarrow>
        let x0 = round_half_even left; y0 = round_half_even upper;
            x1 = round_half_even right; y1 = round_half_even lower
        in and_then (crop_region P img box)
             (\<lambda>px. Inr \<lparr>mode = mode img, im_size = (nat (x1 - x0), nat (y1 - y0)), pixels = px\<rparr>))"

definition save :: "'p pillow \<Rightarrow> 'p image \<Rightarrow> string \<Rightarrow> int \<Rightarrow> exn + bytes" where
  \<comment> \<open>\<open>img.save(output_buffer, format=..., quality=..., optimize=True)\<close> followed by
      \<open>output_buffer.getvalue()\<close>\<close>
  "save P img format quality = encode P img format quality"

section \<open>The service\<close>

text \<open>
  What a request can observe or change outside its own result: the entries written with
  \<open>logging.error\<close> and the number of times an upload body has been read.
\<close>

record env =
  error_log :: "string list"
  reads :: nat

record upload =
  content_type :: "string option"
  body :: bytes

datatype http_exception = HTTPException (status_code: nat) (detail: string)

record response =
  content :: bytes
  media_type :: string

text \<open>
  A handler either raises an \<open>HTTPException\<close> or returns; a Python function that ends
  without a \<open>return\<close> statement returns \<open>None\<close>.
\<close>

datatype reply = Raise http_exception | Return "response option"

definition logging_error :: "string \<Rightarrow> env \<Rightarrow> env" where
  "logging_error msg s = s\<lparr>error_log := error_log s @ [msg]\<rparr>"

definition file_read :: "upload \<Rightarrow> env \<Rightarrow> bytes \<times> env" where
  "file_read file s = (body file, s\<lparr>reads := reads s + 1\<rparr>)"

definition not_an_image :: "upload \<Rightarrow> bool" where
  \<comment> \<open>\<open>file.content_type is None or not file.content_type.startswith("image/")\<close>\<close>
  "not_an_image file =
     (case content_type file of None \<Rightarrow> True | Some t \<Rightarrow> \<not> prefix ''image/'' t)"

subsection \<open>Flattening the alpha channel (lines 33--36, 93--96, 133--136)\<close>

definition flatten :: "'p pillow \<Rightarrow> 'p image \<Rightarrow> 'p image" where
  "flatten P img =
     (if mode img \<in> set [''RGBA'', ''LA'']
      then let background = Image_new P ''RGB'' (im_size img) (255, 255, 255)
           in paste P background img (getchannel P img ''A'')
      else img)"

subsection \<open>\<open>resize_in_memory\<close> and \<open>/resize\<close>\<close>

definition new_dimensions :: "nat \<times> nat \<Rightarrow> int \<Rightarrow> exn + int \<times> int" where
  \<comment> \<open>lines 39--41\<close>
  "new_dimensions sz max_width =
     and_then (int_truediv (int (snd sz)) (int (fst sz))) (\<lambda>aspect_ratio.
       let new_width = min max_width (int (fst sz))
       in and_then (int_times_float new_width aspect_ratio) (\<lambda>product.
            and_then (int_of_float product) (\<lambda>new_height. Inr (new_width, new_height))))"

definition resize_transform :: "'p pillow \<Rightarrow> 'p image \<Rightarrow> int \<Rightarrow> exn + 'p image" where
  \<comment> \<open>lines 33--44: from the decoded image to \<open>resized_img\<close>\<close>
  "resize_transform P img0 max_width =
     (let img = flatten P img0
      in and_then (new_dimensions (im_size img) max_width) (\<lambda>new_size.
           Image_resize P img new_size))"

definition resize_try :: "'p pillow \<Rightarrow> bytes \<Rightarrow> int \<Rightarrow> int \<Rightarrow> string \<Rightarrow> exn + bytes" where
  \<comment> \<open>the \<open>try\<close> block, lines 31--52\<close>
  "resize_try P image_data max_width quality output_format =
     and_then (Image_open P image_data) (\<lambda>img.
       and_then (resize_transform P img max_width) (\<lambda>resized_img.
         save P resized_img output_format quality))"

definition resize_in_memory ::
  "'p pillow \<Rightarrow> bytes \<Rightarrow> int \<Rightarrow> int \<Rightarrow> string \<Rightarrow> env \<Rightarrow> (http_exception + bytes) \<times> env" where
  "resize_in_memory P image_data max_width quality output_format s =
     (case resize_try P image_data max_width quality output_format of
        Inr output \<Rightarrow> (Inr output, s)
      | Inl e \<Rightarrow>
          (Inl (HTTPException 400 (message e)),
           logging_error (''Image processing failed: '' @ message e) s))"

definition resize_image :: "'p pillow \<Rightarrow> upload \<Rightarrow> int \<Rightarrow> int \<Rightarrow> env \<Rightarrow> reply \<times> env" where
  "resize_image P file max_width quality s =
     (if not_an_image file then (Raise (HTTPException 400 ''File must be an image''), s)
      else case file_read file s of (contents, s1) \<Rightarrow>
        (case resize_in_memory P contents max_width quality ''WEBP'' s1 of
           (Inl ex, s2) \<Rightarrow> (Raise ex, s2)
         | (Inr processed_image, s2) \<Rightarrow>
             (Return (Some \<lparr>content = processed_image, media_type = ''image/webp''\<rparr>), s2)))"

subsection \<open>\<open>/crop-square\<close>\<close>

definition square_box :: "nat \<times> nat \<Rightarrow> int \<times> int \<times> int \<times> int" where
  \<comment> \<open>lines 99--103\<close>
  "square_box sz =
     (let crop_size = min (int (fst sz)) (int (snd sz));
          left = (int (fst sz) - crop_size) div 2;
          top' = (int (snd sz) - crop_size) div 2;
          right = left + crop_size;
          bottom = top' + crop_size
      in (left, top', right, bottom))"

definition box_of_ints :: "int \<times> int \<times> int \<times> int \<Rightarrow> rat \<times> rat \<times> rat \<times> rat" where
  "box_of_ints b = (case b of (l, t, r, d) \<Rightarrow> (of_int l, of_int t, of_int r, of_int d))"

definition crop_square_transform :: "'p pillow \<Rightarrow> 'p image \<Rightarrow> exn + 'p image" where
  \<comment> \<open>lines 93--106: from the decoded image to \<open>cropped\<close>\<close>
  "crop_square_transform P img0 =
     (let img = flatten P img0
      in Image_crop P img (box_of_ints (square_box (im_size img))))"

definition crop_square_try :: "'p pillow \<Rightarrow> bytes \<Rightarrow> int \<Rightarrow> exn + response" where
  "crop_square_try P contents quality =
     and_then (Image_open P contents) (\<lambda>img.
       and_then (crop_square_transform P img) (\<lambda>cropped.
         and_then (save P cropped ''WEBP'' quality) (\<lambda>output.
           Inr \<lparr>content = output, media_type = ''image/webp''\<rparr>)))"

definition crop_square :: "'p pillow \<Rightarrow> upload \<Rightarrow> int \<Rightarrow> env \<Rightarrow> reply \<times> env" where
  "crop_square P file quality s =
     (if not_an_image file then (Raise (HTTPException 400 ''File must be an image''), s)
      else case file_read file s of (contents, s1) \<Rightarrow>
        (case crop_square_try P contents quality of
           Inr r \<Rightarrow> (Return (Some r), s1)
         | Inl e \<Rightarrow>
             (Raise (HTTPException 400 (message e)),
              logging_error (''Image processing failed: '' @ message e) s1)))"

subsection \<open>\<open>/crop\<close>\<close>

text \<open>
  The box of \<open>/crop\<close> is a tuple of four floats; it is passed to the library as it is.
  Its coordinates are taken to be finite, hence rational numbers.
\<close>

definition crop_try ::
  "'p pillow \<Rightarrow> bytes \<Rightarrow> rat \<times> rat \<times> rat \<times> rat \<Rightarrow> int \<Rightarrow> exn + bytes" where
  \<comment> \<open>lines 132--139; the value is the content of \<open>output_buffer\<close>\<close>
  "crop_try P contents box quality =
     and_then (Image_open P contents) (\<lambda>img0.
       let img = flatten P img0
       in and_then (Image_crop P img box) (\<lambda>cropped.
            save P cropped ''WEBP'' quality))"

definition crop ::
  "'p pillow \<Rightarrow> upload \<Rightarrow> rat \<times> rat \<times> rat \<times> rat \<Rightarrow> int \<Rightarrow> env \<Rightarrow> reply \<times> env" where
  "crop P file box quality s =
     (if not_an_image file then (Raise (HTTPException 400 ''File must be an image''), s)
      else case file_read file s of (contents, s1) \<Rightarrow>
        (case crop_try P contents box quality of
           Inr output_buffer \<Rightarrow> (Return None, s1)
         | Inl exc \<Rightarrow> (Raise (HTTPException 400 (message exc)), s1)))"

subsection \<open>A stand-in for the library\<close>

text \<open>
  To run the handlers on concrete requests, \<open>toy_pillow\<close> reads a three-byte header
  (mode tag, width, height) and keeps the remaining bytes as pixel data; it encodes to the
  same layout and knows the formats WEBP and JPEG.
\<close>

definition toy_decode :: "bytes \<Rightarrow> exn + bytes image" where
  "toy_decode bs =
     (case bs of
        m # w # h # px \<Rightarrow>
          Inr \<lparr>mode = (if m = 1 then ''RGBA'' else if m = 2 then ''LA'' else ''RGB''),
               im_size = (unat w, unat h), pixels = px\<rparr>
      | _ \<Rightarrow> Inl (Exn ''cannot identify image file''))"

definition toy_encode :: "bytes image \<Rightarrow> string \<Rightarrow> int \<Rightarrow> exn + bytes" where
  "toy_encode img format quality =
     (if format \<in> set [''WEBP'', ''JPEG'']
      then Inr (of_nat (fst (im_size img)) # of_nat (snd (im_size img)) # pixels img)
      else Inl (Exn ''unknown file extension''))"

definition toy_pillow :: "bytes pillow" where
  "toy_pillow =
     \<lparr>decode = toy_decode,
      solid = (\<lambda>m sz color. []),
      band = (\<lambda>img channel. pixels img),
      composite = (\<lambda>bg im mask_img. pixels im),
      resample = (\<lambda>img sz. pixels img),
      crop_region = (\<lambda>img b. Inr (pixels img)),
      encode = toy_encode\<rparr>"

subsection \<open>The height the specification describes\<close>

text \<open>
  The specification gives the new height as \<open>round(new width \<times> aspect ratio)\<close> with the
  aspect ratio \<open>original height / original width\<close>, in ordinary arithmetic and with
  rounding to the nearest integer. This definition follows those words, not the code.
\<close>

definition spec_new_height :: "nat \<times> nat \<Rightarrow> int \<Rightarrow> int" where
  "spec_new_height sz max_width =
     round (of_int (min max_width (int (fst sz))) * (of_nat (snd sz) / of_nat (fst sz)) :: rat)"

definition height_as_specified :: "'p pillow \<Rightarrow> 'p image \<Rightarrow> int \<Rightarrow> bool" where
  \<comment> \<open>the image the resize operation produces, if any, has the height the specification gives\<close>
  "height_as_specified P img max_width =
     (case resize_transform P img max_width of
        Inl e \<Rightarrow> True
      | Inr out \<Rightarrow> int (snd (im_size out)) = spec_new_height (im_size img) max_width)"

subsection \<open>Modes with an alpha channel\<close>

text \<open>
  The specification speaks of images whose colour mode includes an alpha channel. Among
  Pillow's modes these are \<open>LA\<close>, \<open>PA\<close> and \<open>RGBA\<close>, and \<open>La\<close> and \<open>RGBa\<close>
  with premultiplied alpha. This definition follows the specification's words and the
  library's list of modes, not the test the code makes.
\<close>

definition has_alpha_channel :: "string \<Rightarrow> bool" where
  "has_alpha_channel m = (m \<in> set [''LA'', ''PA'', ''RGBA'', ''La'', ''RGBa''])"

section \<open>Auxiliary facts\<close>

lemma and_then_Inr_iff: "and_then r f = Inr y \<longleftrightarrow> (\<exists>x. r = Inr x \<and> f x = Inr y)"
  by (cases r) (simp_all add: and_then_def)

lemma and_then_simps [simp]:
  "and_then (Inl e) f = Inl e" "and_then (Inr x) f = f x"
  by (simp_all add: and_then_def)

section \<open>Rounding to double precision\<close>

text \<open>
  \<open>ilog2\<close> is the binary exponent of its argument, so in the normal range \<open>rnd\<close> moves
  a number by at most half a unit in the last of 53 places: a relative error of at most
  \<open>2\<^sup>-\<^sup>5\<^sup>3\<close>.
\<close>

lemma bit_length_bounds:
  "0 < n \<Longrightarrow> 2 ^ (bit_length n - 1) \<le> n \<and> n < 2 ^ bit_length n"
proof (induction n rule: bit_length.induct)
  case (1 n)
  show ?case
  proof (cases "n div 2 = 0")
    case True
    with \<open>0 < n\<close> have "n = 1"
      by (simp add: div_eq_0_iff)
    then show ?thesis
      by (simp add: bit_length.simps [of "Suc 0"] bit_length.simps [of 0])
  next
    case False
    let ?b = "bit_length (n div 2)"
    from 1 False have IH: "2 ^ (?b - 1) \<le> n div 2" "n div 2 < 2 ^ ?b"
      by auto
    have bl: "bit_length n = Suc ?b"
      using \<open>0 < n\<close> by (simp add: bit_length.simps [of n])
    have "?b \<noteq> 0"
      using False by (simp add: bit_length.simps [of "n div 2"])
    then obtain c where c: "?b = Suc c"
      by (cases ?b) auto
    from IH show ?thesis
      unfolding bl c by simp arith
  qed
qed

lemma bit_length_pos: "0 < n \<Longrightarrow> 0 < bit_length n"
  by (simp add: bit_length.simps [of n])

lemma ilog2_bounds:
  assumes "0 < x"
  shows "2 powi ilog2 x \<le> x \<and> x < 2 powi (ilog2 x + 1)"
proof (cases "1 \<le> x")
  case True
  define n where "n = nat \<lfloor>x\<rfloor>"
  from True have fl: "1 \<le> \<lfloor>x\<rfloor>"
    by simp
  then have n: "0 < n" "of_nat n \<le> x" "x < of_nat n + 1"
    by (simp_all add: n_def) linarith+
  define b where "b = bit_length n"
  from bit_length_bounds [OF n(1)] have bb: "2 ^ (b - 1) \<le> n" "n + 1 \<le> 2 ^ b"
    by (simp_all add: b_def)
  have bpos: "0 < b"
    using bit_length_pos [OF n(1)] by (simp add: b_def)
  have il: "ilog2 x = int (b - 1)" "ilog2 x + 1 = int b"
    using True bpos by (simp_all add: ilog2_def n_def b_def)
  have "(2::rat) ^ (b - 1) \<le> of_nat n"
    using bb(1) by (metis of_nat_le_iff of_nat_numeral of_nat_power)
  moreover have "(of_nat n + 1 :: rat) \<le> 2 ^ b"
    using bb(2) by (metis of_nat_le_iff of_nat_numeral of_nat_power of_nat_add of_nat_1)
  moreover have "(2::rat) powi ilog2 x = 2 ^ (b - 1)"
    by (simp only: il(1) power_int_of_nat)
  moreover have "(2::rat) powi (ilog2 x + 1) = 2 ^ b"
    by (simp only: il(2) power_int_of_nat)
  ultimately show ?thesis
    using n by linarith
next
  case False
  with assms have x: "0 < x" "x < 1"
    by simp_all
  define m where "m = nat \<lceil>1 / x\<rceil>"
  have big: "1 < 1 / x"
    using x by simp
  then have "2 \<le> \<lceil>1 / x\<rceil>"
    by linarith
  then have m: "2 \<le> m" "1 / x \<le> of_nat m" "of_nat m - 1 < 1 / x"
    by (simp_all add: m_def) linarith+
  define j where "j = bit_length (m - 1)"
  have m1: "0 < m - 1"
    using m(1) by simp
  from bit_length_bounds [OF m1] have jb: "2 ^ (j - 1) \<le> m - 1" "m \<le> 2 ^ j"
    by (simp_all add: j_def) linarith
  have jpos: "0 < j"
    using bit_length_pos [OF m1] by (simp add: j_def)
  have il: "ilog2 x = - int j"
    using False by (simp add: ilog2_def m_def j_def)
  have up: "1 / x \<le> 2 ^ j"
  proof -
    have "(of_nat m :: rat) \<le> 2 ^ j"
      using jb(2) by (metis of_nat_le_iff of_nat_numeral of_nat_power)
    with m(2) show ?thesis
      by linarith
  qed
  have low: "2 ^ (j - 1) < 1 / x"
  proof -
    have "(2::rat) ^ (j - 1) \<le> of_nat (m - 1)"
      using jb(1) by (metis of_nat_le_iff of_nat_numeral of_nat_power)
    also have "of_nat (m - 1) = (of_nat m - 1 :: rat)"
      using m(1) by (simp add: of_nat_diff)
    finally show ?thesis
      using m(3) by linarith
  qed
  have a: "2 powi (- int j) \<le> x"
  proof -
    have "2 powi (- int j) = 1 / (2::rat) ^ j"
      by (simp only: power_int_minus power_int_of_nat divide_inverse mult_1)
    also have "\<dots> \<le> x"
      using up x(1) by (simp add: field_simps)
    finally show ?thesis .
  qed
  have b: "x < 2 powi (- int j + 1)"
  proof -
    have e: "- int j + 1 = - int (j - 1)"
      using jpos by simp
    have "(2::rat) powi (- int j + 1) = 2 powi (- int (j - 1))"
      by (simp only: e)
    also have "\<dots> = 1 / (2::rat) ^ (j - 1)"
      by (simp only: power_int_minus power_int_of_nat divide_inverse mult_1)
    finally have "2 powi (- int j + 1) = 1 / (2::rat) ^ (j - 1)" .
    moreover have "x < 1 / (2::rat) ^ (j - 1)"
      using low x(1) by (simp add: field_simps)
    ultimately show ?thesis
      by simp
  qed
  from a b show ?thesis
    unfolding il by simp
qed

lemma round_half_even_error: "\<bar>of_int (round_half_even y) - y\<bar> \<le> 1 / 2"
proof -
  define f where "f = \<lfloor>y\<rfloor>"
  have fl: "of_int f \<le> y" "y < of_int f + 1"
    unfolding f_def by linarith+
  have "round_half_even y = f \<and> y - of_int f \<le> 1 / 2
      \<or> round_half_even y = f + 1 \<and> 1 / 2 \<le> y - of_int f"
    unfolding round_half_even_def Let_def f_def [symmetric] by auto
  then show ?thesis
  proof (elim disjE conjE)
    assume a: "round_half_even y = f" and b: "y - of_int f \<le> 1 / 2"
    from fl b show ?thesis
      unfolding a by linarith
  next
    assume a: "round_half_even y = f + 1" and b: "1 / 2 \<le> y - of_int f"
    have "of_int (f + 1) = (of_int f + 1 :: rat)"
      by simp
    with fl b show ?thesis
      unfolding a by linarith
  qed
qed

lemma rnd_error:
  assumes "2 powi (- 1022) \<le> x"
  shows "\<bar>rnd x - x\<bar> \<le> x / 2 ^ 53"
proof -
  have "(0::rat) < 2 powi (- 1022)"
    by simp
  with assms have pos: "0 < x"
    by linarith
  define k where "k = ilog2 x"
  from ilog2_bounds [OF pos] have kb: "2 powi k \<le> x" "x < 2 powi (k + 1)"
    by (simp_all add: k_def)
  have klow: "- 1022 \<le> k"
  proof (rule ccontr)
    assume "\<not> - 1022 \<le> k"
    then have "k + 1 \<le> - 1022"
      by simp
    then have "(2::rat) powi (k + 1) \<le> 2 powi (- 1022)"
      by (intro power_int_increasing) simp_all
    with kb(2) assms show False
      by linarith
  qed
  define e where "e = k - 52"
  define y where "y = x / 2 powi e"
  have epos: "(0::rat) < 2 powi e"
    by simp
  have "max (ilog2 \<bar>x\<bar> - 52) (- 1074) = e"
    using pos klow by (simp add: e_def k_def)
  then have r: "rnd x = of_int (round_half_even y) * 2 powi e"
    using pos by (simp add: rnd_def y_def)
  have "x = y * 2 powi e"
    by (simp add: y_def)
  with r have "rnd x - x = (of_int (round_half_even y) - y) * 2 powi e"
    by (simp add: algebra_simps)
  then have "\<bar>rnd x - x\<bar> = \<bar>of_int (round_half_even y) - y\<bar> * 2 powi e"
    using epos by (simp add: abs_mult)
  also have "\<dots> \<le> 1 / 2 * 2 powi e"
    using round_half_even_error [of y] epos by (intro mult_right_mono) simp_all
  also have "1 / 2 * 2 powi e = 2 powi k / (2::rat) ^ 53"
  proof -
    have "(2::rat) powi e = 2 powi k / 2 powi 52"
      unfolding e_def by (rule power_int_diff) simp
    then show ?thesis
      by simp
  qed
  also have "\<dots> \<le> x / 2 ^ 53"
    using kb(1) by (intro divide_right_mono) simp_all
  finally show ?thesis .
qed

lemma rnd_interval:
  assumes "2 powi (- 1022) \<le> x"
  shows "x * (1 - 1 / 2 ^ 53) \<le> rnd x" and "rnd x \<le> x * (1 + 1 / 2 ^ 53)"
proof -
  from rnd_error [OF assms] have "rnd x - x \<le> x / 2 ^ 53" and "x - rnd x \<le> x / 2 ^ 53"
    by (simp_all only: abs_le_iff minus_diff_eq)
  then show "x * (1 - 1 / 2 ^ 53) \<le> rnd x" and "rnd x \<le> x * (1 + 1 / 2 ^ 53)"
    by (simp_all add: algebra_simps)
qed

text \<open>
  The height computation rounds three times: the quotient \<open>height / width\<close>, the
  conversion of the new width, and the product. For an image of fewer than \<open>2\<^sup>5\<^sup>1\<close>
  pixels the result stays within \<open>1 / width\<close> of the exact value
  \<open>new_width * height / width\<close>, and nothing overflows.
\<close>

lemma tiny_le: "(2::rat) powi (- 1022) \<le> 1 / 2 ^ 53"
  by simp

lemma dbl_max_big: "2 ^ 53 \<le> dbl_max"
  by (simp add: dbl_max_def)

lemma to_float_finite: "\<bar>rnd x\<bar> \<le> 2 ^ 53 \<Longrightarrow> to_float x = Finite (rnd x)"
  using dbl_max_big by (simp add: to_float_def)

lemma floor_near_quotient:
  fixes p :: rat and N :: int and w :: nat
  assumes w: "0 < w" and close: "\<bar>p - of_int N / of_nat w\<bar> < 1 / of_nat w"
  shows "N div int w - 1 \<le> \<lfloor>p\<rfloor>" and "\<lfloor>p\<rfloor> \<le> N div int w"
    and "\<not> int w dvd N \<Longrightarrow> \<lfloor>p\<rfloor> = N div int w"
proof -
  define k where "k = N div int w"
  define r where "r = N mod int w"
  define W :: rat where "W = of_nat w"
  have Wpos: "0 < W"
    using w by (simp add: W_def)
  have N: "N = k * int w + r"
    by (simp add: k_def r_def)
  have "r < int w"
    using w by (simp add: r_def)
  then have "r + 1 \<le> int w"
    by linarith
  moreover have "0 \<le> r"
    using w by (simp add: r_def)
  ultimately have r: "0 \<le> r" "r + 1 \<le> int w"
    by blast+
  have q: "of_int N / W = of_int k + of_int r / W"
    using Wpos by (simp add: N W_def field_simps)
  from close have up: "p < of_int N / W + 1 / W" and lo: "of_int N / W - 1 / W < p"
    unfolding W_def by linarith+
  have r1: "of_int r / W + 1 / W \<le> 1"
  proof -
    have "of_int r + 1 \<le> W"
      using r(2) unfolding W_def by (metis of_int_1 of_int_add of_int_le_iff of_int_of_nat_eq)
    then show ?thesis
      using Wpos by (simp add: field_simps)
  qed
  have r0: "0 \<le> of_int r / W"
    using r(1) Wpos by simp
  have w1: "1 / W \<le> 1"
    using w by (simp add: W_def)
  from up q r1 have "p < of_int (k + 1)"
    by simp
  then have "\<lfloor>p\<rfloor> < k + 1"
    by (simp only: floor_less_iff)
  then have le: "\<lfloor>p\<rfloor> \<le> k"
    by simp
  from lo q r0 w1 have "of_int (k - 1) \<le> p"
    by simp
  then have ge: "k - 1 \<le> \<lfloor>p\<rfloor>"
    by (simp only: le_floor_iff)
  show "N div int w - 1 \<le> \<lfloor>p\<rfloor>" and "\<lfloor>p\<rfloor> \<le> N div int w"
    using le ge by (simp_all add: k_def)
  show "\<lfloor>p\<rfloor> = N div int w" if "\<not> int w dvd N"
  proof -
    from that have "r \<noteq> 0"
      by (simp add: r_def dvd_eq_mod_eq_0)
    with r(1) have "1 \<le> r"
      by simp
    then have "(1::rat) \<le> of_int r"
      by simp
    then have "1 / W \<le> of_int r / W"
      using Wpos by (simp add: divide_right_mono)
    with lo q have "of_int k \<le> p"
      by simp
    then have "k \<le> \<lfloor>p\<rfloor>"
      by (simp only: le_floor_iff)
    with le show ?thesis
      by (simp add: k_def)
  qed
qed

lemma product_close:
  fixes w h :: nat and nw :: int
  assumes w: "0 < w" and h: "0 < h" and nw: "1 \<le> nw" "nw \<le> int w"
    and px: "w * h < 2 ^ 51"
  defines "a \<equiv> rnd (of_nat h / of_nat w)"
  defines "f \<equiv> rnd (of_int nw)"
  defines "p \<equiv> rnd (f * a)"
  shows "\<bar>p - of_int (nw * int h) / of_nat w\<bar> < 1 / of_nat w"
    and "0 < a" and "a \<le> 2 ^ 53" and "0 < f" and "f \<le> 2 ^ 53" and "0 < p" and "p \<le> 2 ^ 53"
proof -
  define lo :: rat where "lo = 1 - 1 / 2 ^ 53"
  define hi :: rat where "hi = 1 + 1 / 2 ^ 53"
  define W :: rat where "W = of_nat w"
  define H :: rat where "H = of_nat h"
  define N :: rat where "N = of_int nw"
  define r where "r = H / W"
  define q where "q = N * r"
  have lohi: "0 < lo" "0 < hi" "1 / 4 \<le> lo * lo" "hi \<le> 2" "hi * hi \<le> 2"
    "1 - 4 / 2 ^ 53 \<le> lo * lo * lo" "hi * hi * hi \<le> 1 + 4 / 2 ^ 53"
    by (simp_all add: lo_def hi_def)
  have W: "1 \<le> W" and H: "1 \<le> H" and N: "1 \<le> N" "N \<le> W"
    using w h nw by (simp_all add: W_def H_def N_def)
  have WH: "W * H < 2 ^ 51"
  proof -
    have "W * H = of_nat (w * h)"
      by (simp add: W_def H_def)
    also have "\<dots> < of_nat (2 ^ 51)"
      using px by (simp only: of_nat_less_iff)
    finally show ?thesis
      by simp
  qed
  have Wup: "W < 2 ^ 51" and Hup: "H < 2 ^ 51"
  proof -
    have "W * 1 \<le> W * H" "1 * H \<le> W * H"
      using W H by (simp_all add: mult_left_mono mult_right_mono)
    with WH show "W < 2 ^ 51" "H < 2 ^ 51"
      by simp_all
  qed
  have rlow: "1 / 2 ^ 51 \<le> r"
  proof -
    have "1 / 2 ^ 51 \<le> 1 / W"
      using W Wup by (simp add: field_simps)
    also have "\<dots> \<le> H / W"
      using W H by (simp add: divide_right_mono)
    finally show ?thesis
      by (simp add: r_def)
  qed
  have rup: "r \<le> H"
    using W H by (simp add: r_def field_simps)
  have rpos: "0 < r"
    using rlow by (rule less_le_trans [rotated]) simp
  have qW: "q * W = N * H"
    using W by (simp add: q_def r_def)
  have qpos: "0 < q"
    using N rpos by (simp add: q_def)
  have qup: "q \<le> H"
  proof -
    have "N * H \<le> W * H"
      using N H by (intro mult_right_mono) simp_all
    then show ?thesis
      using W by (simp add: q_def r_def field_simps)
  qed
  have qlow: "1 / 2 ^ 51 \<le> q"
  proof -
    have "r \<le> N * r"
      using N rpos by simp
    with rlow show ?thesis
      unfolding q_def by (rule order_trans)
  qed
  \<comment> \<open>the quotient\<close>
  have "2 powi (- 1022) \<le> r"
    using tiny_le rlow by simp
  from rnd_interval [OF this] have a: "r * lo \<le> a" "a \<le> r * hi"
    by (simp_all add: a_def r_def H_def W_def lo_def hi_def)
  have apos: "0 < a"
    using a(1) rpos lohi(1) by (meson less_le_trans mult_pos_pos)
  \<comment> \<open>the converted width\<close>
  have "2 powi (- 1022) \<le> N"
    using tiny_le N by simp
  from rnd_interval [OF this] have f: "N * lo \<le> f" "f \<le> N * hi"
    by (simp_all add: f_def N_def lo_def hi_def)
  have fpos: "0 < f"
    using f(1) N lohi(1) by (meson less_le_trans mult_pos_pos zero_less_one)
  \<comment> \<open>the exact product of the two\<close>
  have fa_lo: "q * (lo * lo) \<le> f * a"
  proof -
    have "(N * lo) * (r * lo) \<le> f * a"
      using f(1) a(1) fpos rpos lohi(1) by (intro mult_mono) simp_all
    then show ?thesis
      by (simp add: q_def mult_ac)
  qed
  have fa_hi: "f * a \<le> q * (hi * hi)"
  proof -
    have "f * a \<le> (N * hi) * (r * hi)"
      using f(2) a(2) apos N lohi(2) by (intro mult_mono) simp_all
    then show ?thesis
      by (simp add: q_def mult_ac)
  qed
  have "2 powi (- 1022) \<le> f * a"
  proof -
    have "1 / 2 ^ 51 * (1 / 4) \<le> q * (lo * lo)"
      using qlow lohi(3) by (intro mult_mono) simp_all
    with fa_lo tiny_le show ?thesis
      by simp
  qed
  from rnd_interval [OF this] have p: "f * a * lo \<le> p" "p \<le> f * a * hi"
    by (simp_all add: p_def lo_def hi_def)
  have p_lo: "q * (1 - 4 / 2 ^ 53) \<le> p"
  proof -
    have "q * (1 - 4 / 2 ^ 53) \<le> q * (lo * lo * lo)"
      using qpos lohi(6) by (intro mult_left_mono) simp_all
    also have "\<dots> = q * (lo * lo) * lo"
      by (simp add: mult_ac)
    also have "\<dots> \<le> f * a * lo"
      using fa_lo lohi(1) by (intro mult_right_mono) simp_all
    finally show ?thesis
      using p(1) by simp
  qed
  have p_hi: "p \<le> q * (1 + 4 / 2 ^ 53)"
  proof -
    have "f * a * hi \<le> q * (hi * hi) * hi"
      using fa_hi lohi(2) by (intro mult_right_mono) simp_all
    also have "\<dots> = q * (hi * hi * hi)"
      by (simp add: mult_ac)
    also have "\<dots> \<le> q * (1 + 4 / 2 ^ 53)"
      using qpos lohi(7) by (intro mult_left_mono) simp_all
    finally show ?thesis
      using p(2) by simp
  qed
  have slack: "q * (4 / 2 ^ 53) < 1 / W"
  proof -
    have "N * H \<le> W * H"
      using N H by (intro mult_right_mono) simp_all
    with WH qW have "q * W < 2 ^ 51"
      by simp
    then have "q * W * (4 / 2 ^ 53) < 1"
      by simp
    then show ?thesis
      using W by (simp add: field_simps)
  qed
  have "\<bar>p - q\<bar> < 1 / W"
    using p_lo p_hi slack by (simp add: algebra_simps abs_less_iff)
  moreover have "q = of_int (nw * int h) / of_nat w"
    by (simp add: q_def r_def N_def H_def W_def)
  ultimately show "\<bar>p - of_int (nw * int h) / of_nat w\<bar> < 1 / of_nat w"
    by (simp add: W_def)
  show "0 < a"
    by (rule apos)
  show "a \<le> 2 ^ 53"
  proof -
    have "r * hi \<le> H * 2"
      using rup lohi rpos by (intro mult_mono) simp_all
    with a(2) Hup show ?thesis
      by simp
  qed
  show "0 < f"
    by (rule fpos)
  show "f \<le> 2 ^ 53"
  proof -
    have "N * hi \<le> W * 2"
      using N lohi by (intro mult_mono) simp_all
    with f(2) Wup show ?thesis
      by simp
  qed
  show "0 < p"
  proof -
    have "0 < q * (1 - 4 / 2 ^ 53)"
      using qpos by simp
    with p_lo show ?thesis
      by simp
  qed
  show "p \<le> 2 ^ 53"
  proof -
    have "q * (1 + 4 / 2 ^ 53) \<le> H * 2"
      using qup qpos by (intro mult_mono) simp_all
    with p_hi Hup show ?thesis
      by simp
  qed
qed

section \<open>The handlers\<close>

text \<open>
  Claim C4. On each of the three endpoints, an upload whose declared content type is
  missing or does not start with \<open>image/\<close> is answered with the exception
  \<open>HTTPException(400, "File must be an image")\<close>; the upload body has not been read,
  nothing has been logged, and the answer does not depend on the image library.
\<close>

theorem invalid_content_type_rejected:
  assumes "content_type file = None \<or> (\<exists>t. content_type file = Some t \<and> \<not> prefix ''image/'' t)"
  shows "resize_image P file max_width quality s =
           (Raise (HTTPException 400 ''File must be an image''), s)
       \<and> crop_square P file quality s =
           (Raise (HTTPException 400 ''File must be an image''), s)
       \<and> crop P file box quality s =
           (Raise (HTTPException 400 ''File must be an image''), s)"
proof -
  from assms have "not_an_image file"
    by (auto simp: not_an_image_def)
  then show ?thesis
    by (simp add: resize_image_def crop_square_def crop_def)
qed

theorem invalid_content_type_rejected_witness:
  "resize_image toy_pillow \<lparr>content_type = Some ''text/plain'', body = [1, 2, 3]\<rparr> 800 85
      \<lparr>error_log = [], reads = 0\<rparr> =
     (Raise (HTTPException 400 ''File must be an image''), \<lparr>error_log = [], reads = 0\<rparr>)
   \<and> crop_square toy_pillow \<lparr>content_type = None, body = [1, 2, 3]\<rparr> 85
      \<lparr>error_log = [], reads = 0\<rparr> =
     (Raise (HTTPException 400 ''File must be an image''), \<lparr>error_log = [], reads = 0\<rparr>)"
  using invalid_content_type_rejected
          [of "\<lparr>content_type = Some ''text/plain'', body = [1, 2, 3]\<rparr>" toy_pillow 800 85
              "\<lparr>error_log = [], reads = 0\<rparr>" "(0, 0, 1, 1)"]
        invalid_content_type_rejected
          [of "\<lparr>content_type = None, body = [1, 2, 3]\<rparr>" toy_pillow 800 85
              "\<lparr>error_log = [], reads = 0\<rparr>" "(0, 0, 1, 1)"]
  by simp

text \<open>
  Claim C2. When a request to \<open>/crop\<close> passes the content-type check and decoding,
  cropping to the given box and encoding as WEBP all succeed, the handler has built the
  encoded buffer but returns \<open>None\<close>: no response carrying the bytes reaches the caller.
\<close>

theorem crop_success_returns_none:
  assumes "\<not> not_an_image file"
    and "Image_open P (body file) = Inr img"
    and "Image_crop P (flatten P img) box = Inr cropped"
    and "save P cropped ''WEBP'' quality = Inr output"
  shows "crop_try P (body file) box quality = Inr output
       \<and> crop P file box quality s = (Return None, s\<lparr>reads := reads s + 1\<rparr>)"
  using assms by (simp add: crop_def crop_try_def file_read_def Let_def)

theorem crop_success_returns_none_witness:
  "crop_try toy_pillow [0, 4, 3, 9] (0, 0, 2, 2) 85 = Inr [2, 2, 9]
   \<and> crop toy_pillow \<lparr>content_type = Some ''image/png'', body = [0, 4, 3, 9]\<rparr> (0, 0, 2, 2) 85
        \<lparr>error_log = [], reads = 0\<rparr> = (Return None, \<lparr>error_log = [], reads = 1\<rparr>)"
proof -
  let ?file = "\<lparr>content_type = Some ''image/png'', body = [0, 4, 3, 9]\<rparr>"
  let ?img = "\<lparr>mode = ''RGB'', im_size = (4, 3), pixels = [9]\<rparr> :: bytes image"
  let ?cropped = "\<lparr>mode = ''RGB'', im_size = (2, 2), pixels = [9]\<rparr> :: bytes image"
  have a: "\<not> not_an_image ?file"
    by (simp add: not_an_image_def)
  have b: "Image_open toy_pillow (body ?file) = Inr ?img"
    by (simp add: Image_open_def toy_pillow_def toy_decode_def)
  have c: "Image_crop toy_pillow (flatten toy_pillow ?img) (0, 0, 2, 2) = Inr ?cropped"
    by (simp add: flatten_def Image_crop_def round_half_even_def and_then_def toy_pillow_def)
  have d: "save toy_pillow ?cropped ''WEBP'' 85 = Inr [2, 2, 9]"
    by (simp add: save_def toy_pillow_def toy_encode_def)
  show ?thesis
    using crop_success_returns_none [OF a b c d, of "\<lparr>error_log = [], reads = 0\<rparr>"]
    by simp
qed

text \<open>
  On \<open>/resize\<close> and \<open>/crop-square\<close> an exception raised while decoding, transforming
  or encoding is answered with status 400 and the exception's message, and the message is
  written to the log.
\<close>

lemma resize_image_failure_logged:
  assumes "\<not> not_an_image file"
    and "resize_try P (body file) max_width quality ''WEBP'' = Inl e"
  shows "resize_image P file max_width quality s =
           (Raise (HTTPException 400 (message e)),
            s\<lparr>reads := reads s + 1,
              error_log := error_log s @ [''Image processing failed: '' @ message e]\<rparr>)"
  using assms
  by (simp add: resize_image_def resize_in_memory_def file_read_def logging_error_def)

lemma crop_square_failure_logged:
  assumes "\<not> not_an_image file"
    and "crop_square_try P (body file) quality = Inl e"
  shows "crop_square P file quality s =
           (Raise (HTTPException 400 (message e)),
            s\<lparr>reads := reads s + 1,
              error_log := error_log s @ [''Image processing failed: '' @ message e]\<rparr>)"
  using assms
  by (simp add: crop_square_def file_read_def logging_error_def)

text \<open>
  Claim C3. A decode, transform or encode exception is answered with status 400 and the
  exception's message on all three endpoints, and \<open>/resize\<close> and \<open>/crop-square\<close>
  log it (the two lemmas above). \<open>/crop\<close> does not: its \<open>except\<close> clause raises
  the \<open>HTTPException\<close> without calling \<open>logging.error\<close>, and the log is left as
  it was.
\<close>

theorem crop_failure_not_logged:
  assumes "\<not> not_an_image file"
    and "crop_try P (body file) box quality = Inl e"
  shows "crop P file box quality s =
           (Raise (HTTPException 400 (message e)), s\<lparr>reads := reads s + 1\<rparr>)
       \<and> error_log (snd (crop P file box quality s)) = error_log s"
  using assms by (simp add: crop_def file_read_def)

theorem crop_failure_not_logged_witness:
  "crop toy_pillow \<lparr>content_type = Some ''image/png'', body = []\<rparr> (0, 0, 1, 1) 85
      \<lparr>error_log = [], reads = 0\<rparr> =
     (Raise (HTTPException 400 ''cannot identify image file''), \<lparr>error_log = [], reads = 1\<rparr>)"
proof -
  let ?file = "\<lparr>content_type = Some ''image/png'', body = []\<rparr>"
  have a: "\<not> not_an_image ?file"
    by (simp add: not_an_image_def)
  have b: "crop_try toy_pillow (body ?file) (0, 0, 1, 1) 85 = Inl (Exn ''cannot identify image file'')"
    by (simp add: crop_try_def Image_open_def toy_pillow_def toy_decode_def)
  show ?thesis
    using crop_failure_not_logged [OF a b, of "\<lparr>error_log = [], reads = 0\<rparr>"]
    by simp
qed

lemma new_dimensions_4_3: "new_dimensions (4, 3) 800 = Inr (4, 3)"
  by code_simp

lemma resize_try_encode_cong:
  assumes "\<forall>img q. enc img ''WEBP'' q = encode P img ''WEBP'' q"
  shows "resize_try (P\<lparr>encode := enc\<rparr>) image_data max_width quality ''WEBP'' =
         resize_try P image_data max_width quality ''WEBP''"
  using assms
  by (simp add: resize_try_def resize_transform_def Image_open_def save_def flatten_def
      Image_new_def paste_def getchannel_def Image_resize_def Let_def cong: if_cong)

text \<open>
  Claim C10. \<open>resize_image\<close> calls \<open>resize_in_memory\<close> without an \<open>output_format\<close>
  argument, so the encoder always runs with the default \<open>WEBP\<close>: every response the
  handler returns carries media type \<open>image/webp\<close> and the WEBP encoding of the resized
  image, and the handler's behaviour does not depend on what the encoder would do for any
  other format.
\<close>

theorem resize_endpoint_always_webp:
  "(\<forall>r s'. resize_image P file max_width quality s = (Return r, s') \<longrightarrow>
      (\<exists>output. r = Some \<lparr>content = output, media_type = ''image/webp''\<rparr>
         \<and> resize_try P (body file) max_width quality ''WEBP'' = Inr output))
   \<and> (\<forall>enc. (\<forall>img q. enc img ''WEBP'' q = encode P img ''WEBP'' q) \<longrightarrow>
         resize_image (P\<lparr>encode := enc\<rparr>) file max_width quality s =
         resize_image P file max_width quality s)"
proof (intro conjI allI impI)
  fix r s'
  assume "resize_image P file max_width quality s = (Return r, s')"
  then show "\<exists>output. r = Some \<lparr>content = output, media_type = ''image/webp''\<rparr>
         \<and> resize_try P (body file) max_width quality ''WEBP'' = Inr output"
    by (auto simp: resize_image_def resize_in_memory_def file_read_def
        split: if_splits sum.splits)
next
  fix enc
  assume "\<forall>img q. enc img ''WEBP'' q = encode P img ''WEBP'' q"
  then show "resize_image (P\<lparr>encode := enc\<rparr>) file max_width quality s =
         resize_image P file max_width quality s"
    by (simp add: resize_image_def resize_in_memory_def resize_try_encode_cong)
qed

lemma toy_resize_try: "resize_try toy_pillow [0, 4, 3, 9] 800 85 ''WEBP'' = Inr [4, 3, 9]"
  by (simp add: resize_try_def Image_open_def toy_pillow_def toy_decode_def
      resize_transform_def flatten_def new_dimensions_4_3 Image_resize_def save_def
      toy_encode_def)

theorem resize_endpoint_always_webp_witness:
  "resize_image toy_pillow \<lparr>content_type = Some ''image/png'', body = [0, 4, 3, 9]\<rparr> 800 85
      \<lparr>error_log = [], reads = 0\<rparr> =
     (Return (Some \<lparr>content = [4, 3, 9], media_type = ''image/webp''\<rparr>),
      \<lparr>error_log = [], reads = 1\<rparr>)
   \<and> resize_try toy_pillow [0, 4, 3, 9] 800 85 ''WEBP'' = Inr [4, 3, 9]
   \<and> resize_image
        (toy_pillow\<lparr>encode := \<lambda>img format q.
            if format = ''WEBP'' then toy_encode img format q else Inr []\<rparr>)
        \<lparr>content_type = Some ''image/png'', body = [0, 4, 3, 9]\<rparr> 800 85
        \<lparr>error_log = [], reads = 0\<rparr> =
     (Return (Some \<lparr>content = [4, 3, 9], media_type = ''image/webp''\<rparr>),
      \<lparr>error_log = [], reads = 1\<rparr>)"
proof -
  let ?file = "\<lparr>content_type = Some ''image/png'', body = [0, 4, 3, 9]\<rparr>"
  let ?s = "\<lparr>error_log = [], reads = 0\<rparr>"
  let ?enc = "\<lambda>img format q. if format = ''WEBP'' then toy_encode img format q else Inr []"
  have run: "resize_image toy_pillow ?file 800 85 ?s =
     (Return (Some \<lparr>content = [4, 3, 9], media_type = ''image/webp''\<rparr>),
      \<lparr>error_log = [], reads = 1\<rparr>)"
    by (simp add: resize_image_def not_an_image_def file_read_def resize_in_memory_def
        toy_resize_try)
  have "\<exists>output. Some \<lparr>content = [4, 3, 9], media_type = ''image/webp''\<rparr> =
            Some \<lparr>content = output, media_type = ''image/webp''\<rparr>
          \<and> resize_try toy_pillow (body ?file) 800 85 ''WEBP'' = Inr output"
    by (rule resize_endpoint_always_webp
          [of toy_pillow ?file 800 85 ?s, THEN conjunct1, rule_format, OF run])
  then have enc: "resize_try toy_pillow [0, 4, 3, 9] 800 85 ''WEBP'' = Inr [4, 3, 9]"
    by auto
  have "resize_image (toy_pillow\<lparr>encode := ?enc\<rparr>) ?file 800 85 ?s =
        resize_image toy_pillow ?file 800 85 ?s"
    by (rule resize_endpoint_always_webp
          [of toy_pillow ?file 800 85 ?s, THEN conjunct2, rule_format, of ?enc])
       (simp add: toy_pillow_def)
  with run enc show ?thesis
    by simp
qed

section \<open>The transform operations\<close>

lemma flatten_size [simp]: "im_size (flatten P img) = im_size img"
  by (simp add: flatten_def Image_new_def paste_def Let_def)

lemma new_dimensions_width:
  assumes "new_dimensions sz max_width = Inr (nw, nh)"
  shows "nw = min max_width (int (fst sz))" and "fst sz \<noteq> 0"
  using assms
  by (auto simp: new_dimensions_def and_then_Inr_iff int_truediv_def Let_def
      split: if_splits)

lemma Image_resize_size:
  assumes "Image_resize P img sz = Inr out"
  shows "(int (fst (im_size out)), int (snd (im_size out))) = sz"
  using assms by (auto simp: Image_resize_def split: if_splits)

text \<open>
  Claim C5. The width computed by the resize operation is \<open>min(max_width, original width)\<close>,
  and whenever the operation produces an image its width is that number: it is never more
  than \<open>max_width\<close> and never more than the width of the decoded image.
\<close>

theorem resize_width_is_min:
  "(\<forall>nw nh. new_dimensions (im_size (flatten P img)) max_width = Inr (nw, nh) \<longrightarrow>
      nw = min max_width (int (fst (im_size img))))
   \<and> (\<forall>out. resize_transform P img max_width = Inr out \<longrightarrow>
        int (fst (im_size out)) = min max_width (int (fst (im_size img)))
        \<and> int (fst (im_size out)) \<le> max_width
        \<and> fst (im_size out) \<le> fst (im_size img))"
proof (intro conjI allI impI)
  fix nw nh
  assume "new_dimensions (im_size (flatten P img)) max_width = Inr (nw, nh)"
  then show "nw = min max_width (int (fst (im_size img)))"
    using new_dimensions_width(1) by fastforce
next
  fix out
  assume run: "resize_transform P img max_width = Inr out"
  then obtain new_size where
    d: "new_dimensions (im_size img) max_width = Inr new_size" and
    r: "Image_resize P (flatten P img) new_size = Inr out"
    by (auto simp: resize_transform_def Let_def and_then_Inr_iff)
  from d have "fst new_size = min max_width (int (fst (im_size img)))"
    using new_dimensions_width(1) [of "im_size img" max_width "fst new_size" "snd new_size"]
    by simp
  moreover from r have "int (fst (im_size out)) = fst new_size"
    using Image_resize_size [OF r] by (cases new_size) auto
  ultimately show "int (fst (im_size out)) = min max_width (int (fst (im_size img)))"
    by simp
  then show "int (fst (im_size out)) \<le> max_width" and "fst (im_size out) \<le> fst (im_size img)"
    by simp_all
qed

lemma new_dimensions_1600_900: "new_dimensions (1600, 900) 800 = Inr (800, 450)"
  by code_simp

theorem resize_width_is_min_witness:
  "resize_transform toy_pillow \<lparr>mode = ''RGB'', im_size = (1600, 900), pixels = [7]\<rparr> 800 =
     Inr \<lparr>mode = ''RGB'', im_size = (800, 450), pixels = [7]\<rparr>
   \<and> int (fst (800 :: nat, 450 :: nat)) = min 800 (int (fst (1600 :: nat, 900 :: nat)))"
proof -
  let ?img = "\<lparr>mode = ''RGB'', im_size = (1600, 900), pixels = [7]\<rparr> :: bytes image"
  let ?out = "\<lparr>mode = ''RGB'', im_size = (800, 450), pixels = [7]\<rparr> :: bytes image"
  have run: "resize_transform toy_pillow ?img 800 = Inr ?out"
    by (simp add: resize_transform_def flatten_def new_dimensions_1600_900 Image_resize_def
        toy_pillow_def)
  from resize_width_is_min [of toy_pillow ?img 800, THEN conjunct2, rule_format, OF run]
  have "int (fst (im_size ?out)) = min 800 (int (fst (im_size ?img)))"
    by blast
  with run show ?thesis
    by simp
qed

text \<open>
  Claim C6, as stated, fails: the code flattens only the modes \<open>RGBA\<close> and \<open>LA\<close>.
  An image in mode \<open>PA\<close> (palette with alpha, as a TIFF file can decode to) has an
  alpha channel and is returned as it is, still in mode \<open>PA\<close>.
\<close>

theorem flatten_every_alpha_mode_counterexample:
  "has_alpha_channel (mode \<lparr>mode = ''PA'', im_size = (5, 3), pixels = [1, 2 :: 8 word]\<rparr>)
   \<and> flatten toy_pillow \<lparr>mode = ''PA'', im_size = (5, 3), pixels = [1, 2]\<rparr> =
       \<lparr>mode = ''PA'', im_size = (5, 3), pixels = [1, 2]\<rparr>
   \<and> mode (flatten toy_pillow \<lparr>mode = ''PA'', im_size = (5, 3), pixels = [1, 2]\<rparr>) \<noteq> ''RGB''"
  by (simp add: has_alpha_channel_def flatten_def)

text \<open>
  Claim C6, amended. For an image in mode \<open>RGBA\<close> or \<open>LA\<close>, flattening gives an image
  in mode \<open>RGB\<close> of the same size whose pixels are the image pasted onto a solid white
  background with its own \<open>A\<close> channel as the mask; an image in any other mode, the
  alpha modes \<open>PA\<close>, \<open>La\<close> and \<open>RGBa\<close> among them, is returned unchanged; and
  flattening twice is the same as flattening once.
\<close>

theorem flatten_alpha:
  "(mode img \<in> {''RGBA'', ''LA''} \<longrightarrow>
      mode (flatten P img) = ''RGB''
      \<and> im_size (flatten P img) = im_size img
      \<and> pixels (flatten P img) =
          composite P (solid P ''RGB'' (im_size img) (255, 255, 255)) img
            (getchannel P img ''A''))
   \<and> (mode img \<notin> {''RGBA'', ''LA''} \<longrightarrow> flatten P img = img)
   \<and> flatten P (flatten P img) = flatten P img"
  by (simp add: flatten_def Image_new_def paste_def Let_def)

theorem flatten_alpha_witness:
  "mode (flatten toy_pillow \<lparr>mode = ''RGBA'', im_size = (5, 3), pixels = [1, 2]\<rparr>) = ''RGB''
   \<and> im_size (flatten toy_pillow \<lparr>mode = ''RGBA'', im_size = (5, 3), pixels = [1, 2]\<rparr>) = (5, 3)
   \<and> pixels (flatten toy_pillow \<lparr>mode = ''RGBA'', im_size = (5, 3), pixels = [1, 2]\<rparr>) = [1, 2]
   \<and> flatten toy_pillow \<lparr>mode = ''RGB'', im_size = (5, 3), pixels = [1, 2]\<rparr> =
     \<lparr>mode = ''RGB'', im_size = (5, 3), pixels = [1, 2]\<rparr>"
proof -
  let ?a = "\<lparr>mode = ''RGBA'', im_size = (5, 3), pixels = [1, 2]\<rparr> :: bytes image"
  let ?b = "\<lparr>mode = ''RGB'', im_size = (5, 3), pixels = [1, 2]\<rparr> :: bytes image"
  have ma: "mode ?a \<in> {''RGBA'', ''LA''}" and mb: "mode ?b \<notin> {''RGBA'', ''LA''}"
    by simp_all
  from flatten_alpha [of ?a toy_pillow] ma
  have "mode (flatten toy_pillow ?a) = ''RGB'' \<and> im_size (flatten toy_pillow ?a) = im_size ?a
      \<and> pixels (flatten toy_pillow ?a) =
          composite toy_pillow (solid toy_pillow ''RGB'' (im_size ?a) (255, 255, 255)) ?a
            (getchannel toy_pillow ?a ''A'')"
    by blast
  moreover have "composite toy_pillow (solid toy_pillow ''RGB'' (im_size ?a) (255, 255, 255)) ?a
            (getchannel toy_pillow ?a ''A'') = [1, 2]"
    by (simp add: toy_pillow_def)
  moreover from flatten_alpha [of ?b toy_pillow] mb have "flatten toy_pillow ?b = ?b"
    by blast
  ultimately show ?thesis
    by simp
qed

lemma round_half_even_of_int [simp]: "round_half_even (of_int n) = n"
  by (simp add: round_half_even_def)

lemma round_half_even_numeral [simp]:
  "round_half_even (numeral k) = numeral k" "round_half_even 0 = 0"
  using round_half_even_of_int [of "numeral k"] round_half_even_of_int [of 0]
  by simp_all

text \<open>
  Claim C7. For a decoded image of width \<open>w\<close> and height \<open>h\<close> the center-square-crop
  operation asks the library for the box \<open>(left, upper, left + crop_size, upper + crop_size)\<close>
  with \<open>crop_size = min w h\<close>, \<open>left = (w - crop_size) div 2\<close> and
  \<open>upper = (h - crop_size) div 2\<close>. The box lies inside the image, the margins on
  opposite sides differ by at most one pixel, and whenever the crop returns an image it is
  a square of side \<open>min w h\<close>.
\<close>

theorem center_square_crop:
  "(let w = int (fst (im_size img)); h = int (snd (im_size img));
        crop_size = min w h; left = (w - crop_size) div 2; upper = (h - crop_size) div 2
    in square_box (im_size img) = (left, upper, left + crop_size, upper + crop_size)
       \<and> crop_square_transform P img =
           Image_crop P (flatten P img)
             (of_int left, of_int upper, of_int (left + crop_size), of_int (upper + crop_size))
       \<and> 0 \<le> left \<and> left + crop_size \<le> w \<and> 0 \<le> upper \<and> upper + crop_size \<le> h
       \<and> (w - (left + crop_size)) - left \<in> {0, 1}
       \<and> (h - (upper + crop_size)) - upper \<in> {0, 1}
       \<and> (\<forall>out. crop_square_transform P img = Inr out \<longrightarrow>
            im_size out = (nat crop_size, nat crop_size) \<and> mode out = mode (flatten P img)))"
proof -
  define w where "w = int (fst (im_size img))"
  define h where "h = int (snd (im_size img))"
  define c where "c = min w h"
  define l where "l = (w - c) div 2"
  define u where "u = (h - c) div 2"
  have nonneg: "0 \<le> w" "0 \<le> h"
    by (simp_all add: w_def h_def)
  have box: "square_box (im_size img) = (l, u, l + c, u + c)"
    by (simp add: square_box_def Let_def w_def h_def c_def l_def u_def)
  have call: "crop_square_transform P img =
      Image_crop P (flatten P img) (of_int l, of_int u, of_int (l + c), of_int (u + c))"
    by (simp add: crop_square_transform_def Let_def box box_of_ints_def)
  have geom: "0 \<le> l" "l + c \<le> w" "0 \<le> u" "u + c \<le> h"
    "(w - (l + c)) - l \<in> {0, 1}" "(h - (u + c)) - u \<in> {0, 1}"
    using nonneg unfolding l_def u_def c_def by (simp_all, presburger+)
  have out: "\<forall>out. crop_square_transform P img = Inr out \<longrightarrow>
      im_size out = (nat c, nat c) \<and> mode out = mode (flatten P img)"
    unfolding call by (auto simp: Image_crop_def Let_def and_then_Inr_iff simp flip: of_int_add)
  show ?thesis
    using box call geom out
    unfolding Let_def w_def [symmetric] h_def [symmetric] c_def [symmetric]
      l_def [symmetric] u_def [symmetric]
    by blast
qed


theorem center_square_crop_witness:
  "square_box (500, 300) = (100, 0, 400, 300)
   \<and> crop_square_transform toy_pillow \<lparr>mode = ''RGBA'', im_size = (500, 300), pixels = [1]\<rparr> =
       Inr \<lparr>mode = ''RGB'', im_size = (300, 300), pixels = [1]\<rparr>"
proof -
  let ?img = "\<lparr>mode = ''RGBA'', im_size = (500, 300), pixels = [1]\<rparr> :: bytes image"
  let ?out = "\<lparr>mode = ''RGB'', im_size = (300, 300), pixels = [1]\<rparr> :: bytes image"
  have run: "crop_square_transform toy_pillow ?img = Inr ?out"
    by (simp add: crop_square_transform_def flatten_def Image_new_def paste_def getchannel_def
        square_box_def box_of_ints_def Image_crop_def toy_pillow_def)
  show ?thesis
    using center_square_crop [of ?img toy_pillow] run
    by (simp add: Let_def)
qed

lemma resize_transform_nonpositive:
  assumes "max_width \<le> 0"
  shows "\<exists>e. resize_transform P img max_width = Inl e"
proof (cases "new_dimensions (im_size img) max_width")
  case (Inl e)
  then show ?thesis
    by (simp add: resize_transform_def)
next
  case (Inr new_size)
  obtain nw nh where ns: "new_size = (nw, nh)"
    by (cases new_size)
  from Inr ns new_dimensions_width [of "im_size img" max_width nw nh]
  have "nw = min max_width (int (fst (im_size img)))" and "fst (im_size img) \<noteq> 0"
    by simp_all
  with assms have "nw < 1" and "nw \<noteq> int (fst (im_size img))"
    by simp_all
  with Inr ns show ?thesis
    by (simp add: resize_transform_def Image_resize_def)
qed

text \<open>
  Claim C8. A request to \<open>/resize\<close> with \<open>max_width \<le> 0\<close> is always answered with
  an \<open>HTTPException\<close> of status 400: the requested width \<open>min(max_width, width)\<close> is
  below one, so the resize (if nothing fails before it) is refused by the library and the
  exception is turned into a 400.
\<close>

theorem nonpositive_max_width_rejected:
  assumes "max_width \<le> 0"
  shows "\<exists>d. fst (resize_image P file max_width quality s) = Raise (HTTPException 400 d)"
proof (cases "not_an_image file")
  case True
  then show ?thesis
    by (simp add: resize_image_def)
next
  case False
  have "\<exists>e. resize_try P (body file) max_width quality ''WEBP'' = Inl e"
  proof (cases "Image_open P (body file)")
    case (Inl e)
    then show ?thesis
      by (simp add: resize_try_def)
  next
    case (Inr img)
    with resize_transform_nonpositive [OF assms, of P img] show ?thesis
      by (auto simp: resize_try_def)
  qed
  with False show ?thesis
    by (auto simp: resize_image_def resize_in_memory_def file_read_def)
qed

theorem nonpositive_max_width_rejected_witness:
  "(0 :: int) \<le> 0
   \<and> (\<exists>d. fst (resize_image toy_pillow \<lparr>content_type = Some ''image/png'', body = [0, 4, 3, 9]\<rparr>
               0 85 \<lparr>error_log = [], reads = 0\<rparr>) = Raise (HTTPException 400 d))"
  using nonpositive_max_width_rejected
          [of 0 toy_pillow "\<lparr>content_type = Some ''image/png'', body = [0, 4, 3, 9]\<rparr>" 85
              "\<lparr>error_log = [], reads = 0\<rparr>"]
  by simp

lemma new_dimensions_400_230: "new_dimensions (400, 230) 800 = Inr (400, 229)"
  by code_simp

lemma new_dimensions_49_1: "new_dimensions (49, Suc 0) 800 = Inr (49, 0)"
  by code_simp

lemma new_dimensions_1000_667: "new_dimensions (1000, 667) 800 = Inr (800, 533)"
  by code_simp

text \<open>
  Claim C9. An image that is not wider than \<open>max_width\<close> does not always keep its
  dimensions. The new height is \<open>int(new_width * (height / width))\<close> in double
  precision, and the product can fall just below \<open>height\<close>: an opaque 400 by 230 image
  resized with \<open>max_width = 800\<close> comes out 400 by 229, and for a 49 by 1 image the
  computed height is 0 and the resize fails.
\<close>

theorem small_image_height_changes:
  "resize_transform P \<lparr>mode = ''RGB'', im_size = (400, 230), pixels = px\<rparr> 800 =
     Inr \<lparr>mode = ''RGB'', im_size = (400, 229),
          pixels = resample P \<lparr>mode = ''RGB'', im_size = (400, 230), pixels = px\<rparr> (400, 229)\<rparr>
   \<and> resize_transform P \<lparr>mode = ''RGB'', im_size = (49, 1), pixels = px\<rparr> 800 =
     Inl (Exn ''height and width must be > 0'')"
  by (simp add: resize_transform_def flatten_def new_dimensions_400_230 new_dimensions_49_1
      Image_resize_def)

text \<open>
  Claim C1, as stated, fails: the code truncates where the specification rounds. For a
  1000 by 667 image and \<open>max_width = 800\<close> the exact height is 533.6, which rounds to
  534, and the resize operation produces an image 533 pixels high.
\<close>

theorem height_is_rounded_counterexample:
  "resize_transform toy_pillow \<lparr>mode = ''RGB'', im_size = (1000, 667), pixels = [7]\<rparr> 800 =
     Inr \<lparr>mode = ''RGB'', im_size = (800, 533), pixels = [7]\<rparr>
   \<and> spec_new_height (1000, 667) 800 = 534
   \<and> \<not> height_as_specified toy_pillow \<lparr>mode = ''RGB'', im_size = (1000, 667), pixels = [7]\<rparr> 800"
proof -
  have spec: "spec_new_height (1000, 667) 800 = 534"
    by code_simp
  have run: "resize_transform toy_pillow \<lparr>mode = ''RGB'', im_size = (1000, 667), pixels = [7]\<rparr> 800 =
     Inr \<lparr>mode = ''RGB'', im_size = (800, 533), pixels = [7]\<rparr>"
    by (simp add: resize_transform_def flatten_def new_dimensions_1000_667 Image_resize_def
        toy_pillow_def)
  show ?thesis
    by (simp add: height_as_specified_def run spec)
qed

lemma new_dimensions_value:
  assumes "0 < w" and "0 < h" and "1 \<le> max_width" and "w * h < 2 ^ 51"
  shows "new_dimensions (w, h) max_width =
           Inr (min max_width (int w),
                \<lfloor>rnd (rnd (of_int (min max_width (int w))) * rnd (of_nat h / of_nat w))\<rfloor>)"
proof -
  define nw where "nw = min max_width (int w)"
  have nw: "1 \<le> nw" "nw \<le> int w"
    using assms(1,3) by (simp_all add: nw_def)
  note pc = product_close [OF assms(1,2) nw assms(4)]
  have q: "to_float (of_nat h / of_nat w) = Finite (rnd (of_nat h / of_nat w))"
    using pc(2,3) by (simp add: to_float_finite)
  have f: "to_float (of_int nw) = Finite (rnd (of_int nw))"
    using pc(4,5) by (simp add: to_float_finite)
  have p: "to_float (rnd (of_int nw) * rnd (of_nat h / of_nat w)) =
           Finite (rnd (rnd (of_int nw) * rnd (of_nat h / of_nat w)))"
    using pc(6,7) by (simp add: to_float_finite)
  show ?thesis
    unfolding nw_def [symmetric]
    using assms(1) pc(6)
    by (simp add: new_dimensions_def int_truediv_def int_times_float_def int_of_float_def
        q f p nw_def [symmetric])
qed

text \<open>
  Claim C1, amended. For a decoded image of \<open>w\<close> by \<open>h\<close> pixels with fewer than
  \<open>2\<^sup>5\<^sup>1\<close> pixels in all and \<open>max_width \<ge> 1\<close>, let \<open>new_width = min(max_width, w)\<close>.
  The computation of the new dimensions succeeds, and the new height is
  \<open>new_width * h / w\<close> truncated to an integer, not rounded, whenever \<open>new_width * h\<close>
  is not a multiple of \<open>w\<close>; in every case it is that quotient rounded down or one less.
  When the resize returns an image, this is its height.
\<close>

theorem new_height_truncates:
  assumes "im_size img = (w, h)" and "0 < w" and "0 < h" and "1 \<le> max_width"
    and "w * h < 2 ^ 51"
  shows "let new_width = min max_width (int w); k = (new_width * int h) div int w
         in \<exists>new_height.
              new_dimensions (im_size (flatten P img)) max_width = Inr (new_width, new_height)
              \<and> k - 1 \<le> new_height \<and> new_height \<le> k
              \<and> (\<not> int w dvd new_width * int h \<longrightarrow> new_height = k)
              \<and> (\<forall>out. resize_transform P img max_width = Inr out \<longrightarrow>
                    int (snd (im_size out)) = new_height)"
proof -
  define nw where "nw = min max_width (int w)"
  define p where "p = rnd (rnd (of_int nw) * rnd (of_nat h / of_nat w))"
  have nw: "1 \<le> nw" "nw \<le> int w"
    using assms(2,4) by (simp_all add: nw_def)
  have d: "new_dimensions (im_size (flatten P img)) max_width = Inr (nw, \<lfloor>p\<rfloor>)"
    using new_dimensions_value [OF assms(2-5)] by (simp add: assms(1) nw_def p_def)
  have close: "\<bar>p - of_int (nw * int h) / of_nat w\<bar> < 1 / of_nat w"
    unfolding p_def by (rule product_close(1) [OF assms(2,3) nw assms(5)])
  note fl = floor_near_quotient [OF assms(2) close]
  have out: "int (snd (im_size out)) = \<lfloor>p\<rfloor>" if "resize_transform P img max_width = Inr out" for out
  proof -
    from that d have "Image_resize P (flatten P img) (nw, \<lfloor>p\<rfloor>) = Inr out"
      by (simp add: resize_transform_def Let_def)
    from Image_resize_size [OF this] show ?thesis
      by simp
  qed
  show ?thesis
    unfolding Let_def nw_def [symmetric]
    using d fl out by blast
qed

theorem new_height_truncates_witness:
  "new_dimensions (im_size (flatten toy_pillow \<lparr>mode = ''RGB'', im_size = (1000, 667), pixels = [7]\<rparr>))
      800 = Inr (800, 533)
   \<and> \<not> (1000 :: int) dvd 800 * 667 \<and> (800 * 667) div 1000 = (533 :: int)"
proof -
  let ?img = "\<lparr>mode = ''RGB'', im_size = (1000, 667), pixels = [7]\<rparr> :: bytes image"
  have "im_size ?img = (1000, 667)" and "(0::nat) < 1000" and "(0::nat) < 667"
    and "(1::int) \<le> 800" and "(1000::nat) * 667 < 2 ^ 51"
    by simp_all
  from new_height_truncates [OF this, of toy_pillow]
  obtain nh where "new_dimensions (im_size (flatten toy_pillow ?img)) 800 = Inr (800, nh)"
    and "\<not> (1000 :: int) dvd 800 * 667 \<longrightarrow> nh = (800 * 667) div 1000"
    by (auto simp: Let_def)
  then show ?thesis
    by simp
qed

end
